theory Spec2Isabelle
  imports Main
begin

section \<open>acmego: replaying a diff into an acme window\<close>

text \<open>
  Shallow embedding of \<^verbatim>\<open>src/acme/acmego/main.go\<close>: \<^verbatim>\<open>parseSpan\<close>, \<^verbatim>\<open>findLines\<close>,
  \<^verbatim>\<open>Window.Write\<close> and \<^verbatim>\<open>reformat\<close>. A Go \<^verbatim>\<open>[]byte\<close> and a Go \<^verbatim>\<open>string\<close> are both
  lists of bytes. A Go \<^verbatim>\<open>int\<close> is a 64-bit signed integer, modelled as an \<open>int\<close> whose
  decrement wraps around explicitly.
\<close>

subsection \<open>Bytes and integers\<close>

type_synonym bytes = string

abbreviation nl :: char where
  "nl \<equiv> CHR 0x0A"

definition maxInt :: int where
  "maxInt = 2 ^ 63 - 1"

definition minInt :: int where
  "minInt = - (2 ^ 63)"

text \<open>The statement \<^verbatim>\<open>x--\<close> on a Go \<^verbatim>\<open>int\<close>: it wraps at the least value.\<close>

definition dec :: "int \<Rightarrow> int" where
  "dec x = (if x = minInt then maxInt else x - 1)"

subsection \<open>Library functions the code calls\<close>

text \<open>
  \<^verbatim>\<open>strconv.Atoi\<close> of the Go library, for a 64-bit \<^verbatim>\<open>int\<close>: an optional sign, then at
  least one decimal digit and nothing else; a value outside the range of \<^verbatim>\<open>int\<close> is an
  error. \<open>None\<close> stands for a non-nil error.
\<close>

definition digitVal :: "char \<Rightarrow> nat option" where
  "digitVal c =
     (let d = (of_char c :: nat) in if 48 \<le> d \<and> d \<le> 57 then Some (d - 48) else None)"

fun parseDigits :: "string \<Rightarrow> nat \<Rightarrow> nat option" where
  "parseDigits [] acc = Some acc"
| "parseDigits (c # cs) acc =
     (case digitVal c of None \<Rightarrow> None | Some d \<Rightarrow> parseDigits cs (acc * 10 + d))"

definition Atoi :: "string \<Rightarrow> int option" where
  "Atoi s =
     (let neg = (s \<noteq> [] \<and> hd s = CHR ''-'');
          ds = (if s \<noteq> [] \<and> (hd s = CHR ''-'' \<or> hd s = CHR ''+'') then tl s else s)
      in if ds = [] then None
         else case parseDigits ds 0 of
                None \<Rightarrow> None
              | Some n \<Rightarrow>
                  if neg then (if int n \<le> 2 ^ 63 then Some (- int n) else None)
                  else (if int n \<le> maxInt then Some (int n) else None))"

text \<open>\<^verbatim>\<open>strings.Index(text, sep)\<close> for a one-byte separator: the first position or -1.\<close>

fun Index :: "string \<Rightarrow> char \<Rightarrow> int" where
  "Index [] c = - 1"
| "Index (x # xs) c =
     (if x = c then 0 else (let r = Index xs c in if r < 0 then - 1 else r + 1))"

text \<open>\<^verbatim>\<open>strings.Split(s, "\n")\<close>: one more piece than there are newlines.\<close>

fun Split :: "string \<Rightarrow> string list" where
  "Split [] = [[]]"
| "Split (c # cs) =
     (if c = nl then [] # Split cs
      else (case Split cs of [] \<Rightarrow> [[c]] | l # ls \<Rightarrow> (c # l) # ls))"

text \<open>The verb \<^verbatim>\<open>%d\<close> of \<^verbatim>\<open>fmt.Sprintf\<close>, which \<^verbatim>\<open>Win.Addr\<close> formats its address with.\<close>

definition digitChar :: "nat \<Rightarrow> char" where
  "digitChar d = char_of (48 + d)"

fun natStr :: "nat \<Rightarrow> string" where
  "natStr n = (if n < 10 then [digitChar n] else natStr (n div 10) @ [digitChar (n mod 10)])"

definition itoa :: "int \<Rightarrow> string" where
  "itoa n = (if n < 0 then CHR ''-'' # natStr (nat (- n)) else natStr (nat n))"

subsection \<open>The window and what happens to it\<close>

text \<open>
  Every effect of \<^verbatim>\<open>reformat\<close> past the formatter is an event: a line of the log, the
  run of \<^verbatim>\<open>/usr/bin/diff\<close>, a call of \<^verbatim>\<open>Win.Addr\<close> and a call of \<^verbatim>\<open>Win.Write\<close>, the last
  two with whether the call succeeded (returned a nil error).
\<close>

datatype logmsg =
    LogErr
  | LogSkipped
  | CannotParseLine string
  | CannotParseSpan string

datatype event =
    EvLog logmsg
  | EvDiff
  | EvAddr string bool
  | EvWrite string bytes bool

text \<open>
  What is outside the program: whether \<^verbatim>\<open>acme.Open\<close> succeeds, the file on disk, the
  formatter's output, the temporary file, the output of diff, the body of the window, and
  the answers of the window to \<^verbatim>\<open>Addr\<close> and \<^verbatim>\<open>Write\<close>, which may depend on everything that
  happened before.
\<close>

record env =
  open_ok :: bool
  file_old :: "bytes option"
  fmt_new :: "bytes option"
  tmp_ok :: bool
  tmp_write_ok :: bool
  diff_out :: bytes
  body :: "bytes option"
  addr_ok :: "event list \<Rightarrow> string \<Rightarrow> bool"
  write_ok :: "event list \<Rightarrow> string \<Rightarrow> bytes \<Rightarrow> bool"

text \<open>The struct \<^verbatim>\<open>Window\<close>: the acme window, here the events so far, and the flag.\<close>

record Window =
  events :: "event list"
  modified :: bool

definition logw :: "logmsg \<Rightarrow> Window \<Rightarrow> Window" where
  "logw m w = w\<lparr>events := events w @ [EvLog m]\<rparr>"

text \<open>\<^verbatim>\<open>func (w *Window) Write\<close>: the error of \<^verbatim>\<open>Win.Write\<close> is dropped, the flag is set.\<close>

definition Window_Write :: "env \<Rightarrow> string \<Rightarrow> bytes \<Rightarrow> Window \<Rightarrow> Window" where
  "Window_Write e ftype data w =
     w\<lparr>events := events w @ [EvWrite ftype data (write_ok e (events w) ftype data)],
       modified := True\<rparr>"

text \<open>\<^verbatim>\<open>w.Addr\<close>, promoted from \<^verbatim>\<open>acme.Win\<close>: \<open>True\<close> for a nil error.\<close>

definition Window_Addr :: "env \<Rightarrow> string \<Rightarrow> Window \<Rightarrow> bool \<times> Window" where
  "Window_Addr e a w =
     (let ok = addr_ok e (events w) a in (ok, w\<lparr>events := events w @ [EvAddr a ok]\<rparr>))"

subsection \<open>parseSpan\<close>

definition parseSpan :: "string \<Rightarrow> (int \<times> int) \<times> event list" where
  "parseSpan text =
     (let i = Index text CHR '',''
      in if i < 0 then
           (case Atoi text of
              None \<Rightarrow> ((0, 0), [EvLog (CannotParseSpan text)])
            | Some n \<Rightarrow> ((n, n), []))
         else
           (case (Atoi (take (nat i) text), Atoi (drop (nat i + 1) text)) of
              (Some start, Some end) \<Rightarrow> ((start, end), [])
            | _ \<Rightarrow> ((0, 0), [EvLog (CannotParseSpan text)])))"

subsection \<open>findLines\<close>

text \<open>
  \<^verbatim>\<open>text[i]\<close> and \<^verbatim>\<open>text[a:b]\<close> panic out of range; \<open>None\<close> is the panic.
\<close>

definition index :: "bytes \<Rightarrow> nat \<Rightarrow> char option" where
  "index text i = (if i < length text then Some (text ! i) else None)"

definition slice :: "bytes \<Rightarrow> nat \<Rightarrow> nat \<Rightarrow> bytes option" where
  "slice text a b = (if a \<le> b \<and> b \<le> length text then Some (take (b - a) (drop a text)) else None)"

text \<open>The first loop: the state is \<open>(i, start, end)\<close>.\<close>

function loop1 :: "bytes \<Rightarrow> nat \<Rightarrow> int \<Rightarrow> int \<Rightarrow> (nat \<times> int \<times> int) option" where
  "loop1 text i start end =
     (if i < length text \<and> start > 0 then
        (case index text i of
           None \<Rightarrow> None
         | Some c \<Rightarrow>
             if c = nl then loop1 text (i + 1) (dec start) (dec end)
             else loop1 text (i + 1) start end)
      else Some (i, start, end))"
  by pat_completeness auto
termination
  by (relation "measure (\<lambda>(text, i, start, end). length text - i)") auto

text \<open>The second loop: the state is \<open>(i, end)\<close>, the result is the last \<open>i\<close>.\<close>

function loop2 :: "bytes \<Rightarrow> nat \<Rightarrow> int \<Rightarrow> nat option" where
  "loop2 text i end =
     (if i < length text \<and> end > 0 then
        (case index text i of
           None \<Rightarrow> None
         | Some c \<Rightarrow>
             if c = nl then loop2 text (i + 1) (dec end)
             else loop2 text (i + 1) end)
      else Some i)"
  by pat_completeness auto
termination
  by (relation "measure (\<lambda>(text, i, end). length text - i)") auto

definition findLines :: "bytes \<Rightarrow> int \<Rightarrow> int \<Rightarrow> bytes option" where
  "findLines text start end =
     (case loop1 text 0 (dec start) end of
        None \<Rightarrow> None
      | Some (startByte, start', end') \<Rightarrow>
          (case loop2 text startByte end' of
             None \<Rightarrow> None
           | Some endByte \<Rightarrow> slice text startByte endByte))"

subsection \<open>reformat\<close>

text \<open>The scan for the operator letter: \<^verbatim>\<open>for j < len(line) && line[j] != 'a' && ...\<close>.\<close>

function scanOp :: "string \<Rightarrow> nat \<Rightarrow> nat" where
  "scanOp line j =
     (if j < length line \<and> line ! j \<noteq> CHR ''a'' \<and> line ! j \<noteq> CHR ''c'' \<and> line ! j \<noteq> CHR ''d''
      then scanOp line (j + 1) else j)"
  by pat_completeness auto
termination
  by (relation "measure (\<lambda>(line, j). length line - j)") auto

text \<open>The line \<^verbatim>\<open>\ No newline at end of file\<close> of diff.\<close>

definition noNewline :: string where
  "noNewline = CHR 0x5C # '' No newline at end of file''"

text \<open>
  How one turn of the loop over the lines of the diff ends: \<open>Next\<close> goes on to the
  line before (a \<^verbatim>\<open>continue\<close>, the end of the body, or a \<^verbatim>\<open>break\<close> that leaves only the
  \<^verbatim>\<open>switch\<close>), \<open>Break\<close> leaves the loop, \<open>Panic\<close> is a run-time panic.
\<close>

datatype ctrl = Next | Break | Panic

text \<open>One case of the \<^verbatim>\<open>switch\<close>: set the address, then write the data.\<close>

definition addrWrite :: "env \<Rightarrow> string \<Rightarrow> bytes option \<Rightarrow> Window \<Rightarrow> ctrl \<times> Window" where
  "addrWrite e a payload w =
     (case Window_Addr e a w of
        (False, w') \<Rightarrow> (Next, logw LogErr w')
      | (True, w') \<Rightarrow>
          (case payload of
             None \<Rightarrow> (Panic, w')
           | Some data \<Rightarrow> (Next, Window_Write e ''data'' data w')))"

text \<open>The body of the loop, for one line of the diff.\<close>

definition doLine :: "env \<Rightarrow> bytes \<Rightarrow> string \<Rightarrow> Window \<Rightarrow> ctrl \<times> Window" where
  "doLine e new line w =
     (if line = [] then (Next, w)
      else if line = noNewline then
        (Next, Window_Write e ''data'' [nl] (snd (Window_Addr e ''$'' w)))
      else if hd line = CHR ''<'' \<or> hd line = CHR ''-'' \<or> hd line = CHR ''>'' then (Next, w)
      else
        (let j = scanOp line 0 in
         if j \<ge> length line then (Break, logw (CannotParseLine line) w)
         else
           (let ((oldStart, oldEnd), log1) = parseSpan (take j line);
                ((newStart, newEnd), log2) = parseSpan (drop (j + 1) line);
                w1 = w\<lparr>events := events w @ log1 @ log2\<rparr>
            in if oldStart = 0 \<or> newStart = 0 then (Next, w1)
               else if line ! j = CHR ''a'' then
                 addrWrite e (itoa oldStart @ ''+#0'') (findLines new newStart newEnd) w1
               else if line ! j = CHR ''c'' then
                 addrWrite e (itoa oldStart @ '','' @ itoa oldEnd)
                   (findLines new newStart newEnd) w1
               else if line ! j = CHR ''d'' then
                 addrWrite e (itoa oldStart @ '','' @ itoa oldEnd) (Some []) w1
               else (Next, w1))))"

text \<open>
  The loop \<^verbatim>\<open>for i := len(diffLines) - 1; i >= 0; i--\<close>, over the lines from the last
  to the first: the argument is the reversed list.
\<close>

fun replayLines :: "env \<Rightarrow> bytes \<Rightarrow> string list \<Rightarrow> Window \<Rightarrow> ctrl \<times> Window" where
  "replayLines e new [] w = (Next, w)"
| "replayLines e new (line # rest) w =
     (case doLine e new line w of
        (Next, w') \<Rightarrow> replayLines e new rest w'
      | (c, w') \<Rightarrow> (c, w'))"

datatype result = Return bool | Panicked

definition reformat :: "env \<Rightarrow> result \<times> event list" where
  "reformat e =
     (if \<not> open_ok e then (Return False, [EvLog LogErr])
      else case file_old e of
        None \<Rightarrow> (Return False, [])
      | Some old \<Rightarrow>
      (case fmt_new e of
        None \<Rightarrow> (Return False, [])
      | Some new \<Rightarrow>
      if old = new then (Return False, [])
      else if \<not> tmp_ok e then (Return False, [EvLog LogErr])
      else if \<not> tmp_write_ok e then (Return False, [EvLog LogErr])
      else (case body e of
        None \<Rightarrow> (Return False, [EvDiff, EvLog LogErr])
      | Some latest \<Rightarrow>
      if old \<noteq> latest then (Return False, [EvDiff, EvLog LogSkipped])
      else
        (let w0 = \<lparr>events = [EvDiff], modified = False\<rparr>;
             w1 = Window_Write e ''ctl'' ''mark'' w0;
             w2 = Window_Write e ''ctl'' ''nomark'' w1;
             diffLines = Split (diff_out e)
         in case replayLines e new (rev diffLines) w2 of
              (Panic, w3) \<Rightarrow> (Panicked, events w3)
            | (_, w3) \<Rightarrow> (Return (modified w3), events w3)))))"

subsection \<open>Notions the properties are stated with\<close>

text \<open>
  The number of lines of a buffer: one for each newline, and one more for a last line
  that no newline ends.
\<close>

definition numLines :: "bytes \<Rightarrow> nat" where
  "numLines text = count_list text nl + (if text \<noteq> [] \<and> last text \<noteq> nl then 1 else 0)"

text \<open>The events that are calls of \<^verbatim>\<open>Win.Write\<close> and of \<^verbatim>\<open>Win.Addr\<close>.\<close>

fun isWrite :: "event \<Rightarrow> bool" where
  "isWrite (EvWrite f d ok) = True"
| "isWrite ev = False"

fun isAddr :: "event \<Rightarrow> bool" where
  "isAddr (EvAddr a ok) = True"
| "isAddr ev = False"

text \<open>The operator letters of a hunk header.\<close>

definition isOp :: "char \<Rightarrow> bool" where
  "isOp c = (c = CHR ''a'' \<or> c = CHR ''c'' \<or> c = CHR ''d'')"

text \<open>The address that the \<^verbatim>\<open>switch\<close> sets for a hunk: an insertion point for \<^verbatim>\<open>a\<close>, a range otherwise.\<close>

definition hunkAddr :: "char \<Rightarrow> int \<Rightarrow> int \<Rightarrow> string" where
  "hunkAddr opc s e = (if opc = CHR ''a'' then itoa s @ ''+#0'' else itoa s @ '','' @ itoa e)"

text \<open>
  An environment in which every call succeeds and the window holds what the file holds.
\<close>

definition allOk :: "bytes \<Rightarrow> bytes \<Rightarrow> bytes \<Rightarrow> env" where
  "allOk old new d =
     \<lparr>open_ok = True, file_old = Some old, fmt_new = Some new, tmp_ok = True,
      tmp_write_ok = True, diff_out = d, body = Some old,
      addr_ok = (\<lambda>h a. True), write_ok = (\<lambda>h f b. True)\<rparr>"

text \<open>
  A line that the loop treats as a hunk header, with its operator letter at \<open>j\<close>: not
  blank, not the line about the missing newline, not a content line, and with one of the
  letters \<^verbatim>\<open>a\<close>, \<^verbatim>\<open>c\<close>, \<^verbatim>\<open>d\<close> in it, the first of them at \<open>j\<close>.
\<close>

definition hunkAt :: "string \<Rightarrow> nat \<Rightarrow> bool" where
  "hunkAt line j =
     (line \<noteq> [] \<and> line \<noteq> noNewline \<and>
      hd line \<noteq> CHR ''<'' \<and> hd line \<noteq> CHR ''-'' \<and> hd line \<noteq> CHR ''>'' \<and>
      j = scanOp line 0 \<and> j < length line)"

subsection \<open>Concrete runs\<close>

text \<open>The window as the loop finds it, before the two writes to \<^verbatim>\<open>ctl\<close>.\<close>

definition w0 :: Window where
  "w0 = \<lparr>events = [EvDiff], modified = False\<rparr>"

text \<open>
  The formatter puts a line before the first one: diff reports the hunk \<^verbatim>\<open>0a1\<close>.
\<close>

definition topInsert :: env where
  "topInsert = allOk ''b\<newline>'' ''a\<newline>b\<newline>'' ''0a1\<newline>> a\<newline>''"

text \<open>The window was edited after the file was written.\<close>

definition staleWindow :: env where
  "staleWindow =
     (allOk ''a\<newline>'' ''b\<newline>'' ''1c1\<newline>< a\<newline>---\<newline>> b\<newline>'')\<lparr>body := Some ''a\<newline>x\<newline>''\<rparr>"

text \<open>The formatter returns the file as it is.\<close>

definition unchangedFile :: env where
  "unchangedFile = allOk ''a\<newline>'' ''a\<newline>'' []"

text \<open>Every write to the window fails.\<close>

definition writesFail :: env where
  "writesFail =
     (allOk ''line1\<newline>line2\<newline>line3\<newline>'' ''line1\<newline>CHANGED\<newline>line3\<newline>''
        ''2c2\<newline>< line2\<newline>---\<newline>> CHANGED\<newline>'')\<lparr>write_ok := (\<lambda>h f b. False)\<rparr>"

text \<open>Two hunks; the window refuses the address of the second.\<close>

definition addrFails :: env where
  "addrFails =
     (allOk ''a\<newline>b\<newline>c\<newline>'' ''x\<newline>b\<newline>y\<newline>''
        ''1c1\<newline>< a\<newline>---\<newline>> x\<newline>3c3\<newline>< c\<newline>---\<newline>> y\<newline>'')\<lparr>addr_ok := (\<lambda>h a. a \<noteq> ''3,3'')\<rparr>"

text \<open>A hunk, then a line with no operator letter.\<close>

definition badLine :: env where
  "badLine = allOk ''a\<newline>'' ''x\<newline>'' ''1c1\<newline>< a\<newline>---\<newline>> x\<newline>3x3\<newline>''"

text \<open>A hunk header whose new range is a negative number.\<close>

definition negRange :: env where
  "negRange = allOk ''a\<newline>b\<newline>c\<newline>'' ''a\<newline>b\<newline>'' ''3c-4\<newline>''"

section \<open>Properties\<close>

subsection \<open>findLines\<close>

lemma dec_pos: "0 < x \<Longrightarrow> dec x = x - 1"
  by (simp add: dec_def minInt_def)

declare loop1.simps [simp del] loop2.simps [simp del]

lemma loop1_stop: "\<not> (i < length t \<and> 0 < s) \<Longrightarrow> loop1 t i s e = Some (i, s, e)"
  by (subst loop1.simps) auto

lemma loop1_nl:
  "i < length t \<Longrightarrow> 0 < s \<Longrightarrow> t ! i = nl \<Longrightarrow> loop1 t i s e = loop1 t (i + 1) (dec s) (dec e)"
  by (subst loop1.simps) (simp add: index_def)

lemma loop1_other:
  "i < length t \<Longrightarrow> 0 < s \<Longrightarrow> t ! i \<noteq> nl \<Longrightarrow> loop1 t i s e = loop1 t (i + 1) s e"
  by (subst loop1.simps) (simp add: index_def)

lemma loop2_stop: "\<not> (i < length t \<and> 0 < e) \<Longrightarrow> loop2 t i e = Some i"
  by (subst loop2.simps) auto

lemma loop2_nl:
  "i < length t \<Longrightarrow> 0 < e \<Longrightarrow> t ! i = nl \<Longrightarrow> loop2 t i e = loop2 t (i + 1) (dec e)"
  by (subst loop2.simps) (simp add: index_def)

lemma loop2_other:
  "i < length t \<Longrightarrow> 0 < e \<Longrightarrow> t ! i \<noteq> nl \<Longrightarrow> loop2 t i e = loop2 t (i + 1) e"
  by (subst loop2.simps) (simp add: index_def)

lemma loop1_bounds:
  "i \<le> length t \<Longrightarrow>
   \<exists>i' s' e'. loop1 t i s e = Some (i', s', e') \<and> i \<le> i' \<and> i' \<le> length t"
proof (induction t i s e rule: loop1.induct)
  case (1 t i s e)
  show ?case
  proof (cases "i < length t \<and> 0 < s")
    case True
    then have ix: "index t i = Some (t ! i)" by (simp add: index_def)
    from True have le: "i + 1 \<le> length t" by simp
    show ?thesis
    proof (cases "t ! i = nl")
      case nlc: True
      from "1.IH"(1)[OF True ix nlc le] True nlc show ?thesis
        by (auto simp: loop1_nl)
    next
      case nnl: False
      from "1.IH"(2)[OF True ix nnl le] True nnl show ?thesis
        by (auto simp: loop1_other)
    qed
  next
    case False
    with "1.prems" show ?thesis by (simp add: loop1_stop)
  qed
qed

lemma loop2_bounds:
  "i \<le> length t \<Longrightarrow> \<exists>i'. loop2 t i e = Some i' \<and> i \<le> i' \<and> i' \<le> length t"
proof (induction t i e rule: loop2.induct)
  case (1 t i e)
  show ?case
  proof (cases "i < length t \<and> 0 < e")
    case True
    then have ix: "index t i = Some (t ! i)" by (simp add: index_def)
    from True have le: "i + 1 \<le> length t" by simp
    show ?thesis
    proof (cases "t ! i = nl")
      case nlc: True
      from "1.IH"(1)[OF True ix nlc le] True nlc show ?thesis
        by (auto simp: loop2_nl)
    next
      case nnl: False
      from "1.IH"(2)[OF True ix nnl le] True nnl show ?thesis
        by (auto simp: loop2_other)
    qed
  next
    case False
    with "1.prems" show ?thesis by (simp add: loop2_stop)
  qed
qed

lemma findLines_slice:
  "\<exists>sb eb. sb \<le> eb \<and> eb \<le> length t \<and>
     findLines t start end = Some (take (eb - sb) (drop sb t))"
proof -
  obtain sb s' e' where l1: "loop1 t 0 (dec start) end = Some (sb, s', e')" "sb \<le> length t"
    using loop1_bounds[of 0 t "dec start" "end"] by auto
  obtain eb where l2: "loop2 t sb e' = Some eb" "sb \<le> eb" "eb \<le> length t"
    using loop2_bounds[OF l1(2), of e'] by auto
  have "findLines t start end = Some (take (eb - sb) (drop sb t))"
    using l1 l2 by (simp add: findLines_def slice_def)
  with l2 show ?thesis by blast
qed

text \<open>A start beyond the last line: the first loop runs to the end of the buffer.\<close>

lemma numLines_Nil: "numLines [] = 0"
  by (simp add: numLines_def)

lemma numLines_nl: "numLines (nl # r) = Suc (numLines r)"
  by (simp add: numLines_def)

lemma numLines_other: "c \<noteq> nl \<Longrightarrow> numLines r \<le> numLines (c # r)"
  by (simp add: numLines_def)

lemma numLines_pos: "r \<noteq> [] \<Longrightarrow> 0 < numLines r"
  by (cases r rule: rev_cases) (auto simp: numLines_def)


lemma loop1_past_end:
  "i \<le> length t \<Longrightarrow> int (numLines (drop i t)) \<le> s \<Longrightarrow>
   \<exists>s' e'. loop1 t i s e = Some (length t, s', e')"
proof (induction t i s e rule: loop1.induct)
  case (1 t i s e)
  show ?case
  proof (cases "i < length t \<and> 0 < s")
    case True
    then have ix: "index t i = Some (t ! i)" by (simp add: index_def)
    from True have le: "i + 1 \<le> length t" by simp
    from True have dr: "drop i t = t ! i # drop (i + 1) t"
      by (simp add: Cons_nth_drop_Suc)
    show ?thesis
    proof (cases "t ! i = nl")
      case nlc: True
      from "1.prems"(2) dr nlc True have "int (numLines (drop (i + 1) t)) \<le> dec s"
        by (simp add: numLines_nl dec_pos)
      from "1.IH"(1)[OF True ix nlc le this] True nlc show ?thesis
        by (simp add: loop1_nl)
    next
      case nnl: False
      from "1.prems"(2) dr numLines_other[OF nnl, of "drop (i + 1) t"]
      have "int (numLines (drop (i + 1) t)) \<le> s" by simp
      from "1.IH"(2)[OF True ix nnl le this] True nnl show ?thesis
        by (simp add: loop1_other)
    qed
  next
    case False
    have "i = length t"
    proof (rule ccontr)
      assume "i \<noteq> length t"
      with "1.prems"(1) have lt: "i < length t" by simp
      then have "0 < numLines (drop i t)" by (simp add: numLines_pos)
      with "1.prems"(2) False lt show False by simp
    qed
    with False show ?thesis by (simp add: loop1_stop)
  qed
qed

lemma findLines_start_beyond:
  assumes "int (numLines t) < start"
  shows "findLines t start end = Some []"
proof -
  from assms have "0 < start" by simp
  then have d: "dec start = start - 1" by (rule dec_pos)
  from assms d have "int (numLines (drop 0 t)) \<le> dec start" by simp
  from loop1_past_end[OF _ this, of "end"] obtain s' e' where
    "loop1 t 0 (dec start) end = Some (length t, s', e')" by auto
  then show ?thesis
    by (simp add: findLines_def loop2_stop slice_def)
qed




subsection \<open>The scan for the operator and the loop over the lines\<close>

declare scanOp.simps [simp del]

lemma scanOp_takeWhile:
  "j \<le> length line \<Longrightarrow> scanOp line j = j + length (takeWhile (\<lambda>c. \<not> isOp c) (drop j line))"
proof (induction line j rule: scanOp.induct)
  case (1 line j)
  show ?case
  proof (cases "j < length line")
    case True
    then have dr: "drop j line = line ! j # drop (j + 1) line"
      by (simp add: Cons_nth_drop_Suc)
    show ?thesis
    proof (cases "isOp (line ! j)")
      case True
      with dr show ?thesis
        by (subst scanOp.simps) (auto simp: isOp_def)
    next
      case False
      with \<open>j < length line\<close> have c: "j < length line \<and> line ! j \<noteq> CHR ''a'' \<and> line ! j \<noteq> CHR ''c'' \<and> line ! j \<noteq> CHR ''d''"
        by (simp add: isOp_def)
      from \<open>j < length line\<close> have "j + 1 \<le> length line" by simp
      from "1.IH"[OF c this] c dr False show ?thesis
        by (subst scanOp.simps) simp
    qed
  next
    case False
    with "1.prems" show ?thesis
      by (subst scanOp.simps) simp
  qed
qed

lemma scanOp_le: "scanOp line 0 \<le> length line"
  using scanOp_takeWhile[of 0 line] length_takeWhile_le[of "\<lambda>c. \<not> isOp c" line] by simp

lemma scanOp_none:
  assumes "\<forall>c\<in>set line. \<not> isOp c"
  shows "scanOp line 0 = length line"
proof -
  from assms have "takeWhile (\<lambda>c. \<not> isOp c) line = line"
    by (simp add: takeWhile_eq_all_conv)
  with scanOp_takeWhile[of 0 line] show ?thesis by simp
qed

lemma scanOp_isOp:
  assumes "scanOp line 0 < length line"
  shows "isOp (line ! scanOp line 0)"
proof -
  let ?P = "\<lambda>c. \<not> isOp c"
  have eq: "scanOp line 0 = length (takeWhile ?P line)"
    using scanOp_takeWhile[of 0 line] by simp
  with assms have "length (takeWhile ?P line) < length line" by simp
  from nth_length_takeWhile[OF this] eq show ?thesis by simp
qed

lemma findLines_Some: "\<exists>d. findLines t start end = Some d"
  using findLines_slice[of t start "end"] by blast

lemma addrWrite_ext:
  assumes "addrWrite e a (Some d) w = (c, w')"
  shows "c = Next \<and> (\<exists>evs. events w' = events w @ evs) \<and> (modified w \<longrightarrow> modified w')"
  using assms
  by (auto simp: addrWrite_def Window_Addr_def Window_Write_def logw_def Let_def
      split: if_splits bool.splits)

lemma doLine_ext:
  assumes "doLine e new line w = (c, w')"
  shows "c \<noteq> Panic \<and> (\<exists>evs. events w' = events w @ evs) \<and> (modified w \<longrightarrow> modified w')"
proof -
  obtain d where d: "\<And>s n. findLines new s n = Some (d s n)"
    using findLines_Some[of new] by metis
  from assms show ?thesis
    by (auto simp: doLine_def d Let_def Window_Addr_def Window_Write_def logw_def
        split: if_splits prod.splits dest!: addrWrite_ext)
qed

lemma replayLines_ext:
  "replayLines e new ls w = (c, w') \<Longrightarrow>
   c \<noteq> Panic \<and> (\<exists>evs. events w' = events w @ evs) \<and> (modified w \<longrightarrow> modified w')"
proof (induction ls arbitrary: w)
  case Nil
  then show ?case by simp
next
  case (Cons l ls)
  obtain c1 w1 where s: "doLine e new l w = (c1, w1)" by (cases "doLine e new l w")
  from doLine_ext[OF s] have e1: "c1 \<noteq> Panic" "\<exists>evs. events w1 = events w @ evs" "modified w \<longrightarrow> modified w1"
    by auto
  show ?case
  proof (cases c1)
    case Next
    with Cons.prems s have "replayLines e new ls w1 = (c, w')" by simp
    from Cons.IH[OF this] e1 show ?thesis by auto
  next
    case Break
    with Cons.prems s e1 show ?thesis by auto
  next
    case Panic
    with e1 show ?thesis by simp
  qed
qed

subsection \<open>Atoi, Index and parseSpan\<close>

lemma Index_ge: "- 1 \<le> Index s c"
  by (induction s) (auto simp: Let_def)







declare natStr.simps [simp del]













lemma replayLines_append:
  "replayLines e new (xs @ ys) w =
     (case replayLines e new xs w of (Next, w') \<Rightarrow> replayLines e new ys w' | r \<Rightarrow> r)"
proof (induction xs arbitrary: w)
  case Nil
  show ?case by simp
next
  case (Cons x xs)
  obtain c w1 where s: "doLine e new x w = (c, w1)" by (cases "doLine e new x w")
  show ?case
    by (cases c) (simp_all add: s Cons.IH)
qed

lemma doLine_unparsable:
  assumes "line \<noteq> []" "hd line \<noteq> CHR ''<''" "hd line \<noteq> CHR ''-''" "hd line \<noteq> CHR ''>''"
    and "\<forall>c\<in>set line. \<not> isOp c"
  shows "doLine e new line w = (Break, logw (CannotParseLine line) w)"
proof -
  have "\<exists>c\<in>set noNewline. isOp c" by (simp add: noNewline_def isOp_def)
  with assms(5) have "line \<noteq> noNewline" by blast
  with assms scanOp_none[OF assms(5)] show ?thesis
    by (simp add: doLine_def)
qed

lemma doLine_hunk:
  assumes "hunkAt line j"
    and "parseSpan (take j line) = ((oldStart, oldEnd), log1)"
    and "parseSpan (drop (j + 1) line) = ((newStart, newEnd), log2)"
  shows "doLine e new line w =
     (if oldStart = 0 \<or> newStart = 0 then (Next, w\<lparr>events := events w @ log1 @ log2\<rparr>)
      else addrWrite e (hunkAddr (line ! j) oldStart oldEnd)
             (if line ! j = CHR ''d'' then Some [] else findLines new newStart newEnd)
             (w\<lparr>events := events w @ log1 @ log2\<rparr>))"
proof -
  from assms(1) have j: "scanOp line 0 = j" "\<not> length line \<le> j" by (simp_all add: hunkAt_def)
  with scanOp_isOp[of line] have "isOp (line ! j)" by simp
  then have op: "line ! j = CHR ''a'' \<or> line ! j = CHR ''c'' \<or> line ! j = CHR ''d''"
    by (simp add: isOp_def)
  from assms(1) have pre: "line \<noteq> []" "line \<noteq> noNewline"
    "\<not> (hd line = CHR ''<'' \<or> hd line = CHR ''-'' \<or> hd line = CHR ''>'')"
    by (simp_all add: hunkAt_def)
  from op show ?thesis
    using assms(2,3) by (auto simp: doLine_def pre j hunkAddr_def Let_def)
qed





section \<open>The claims\<close>

subsection \<open>C1: the replay turns the old buffer into the new one\<close>

text \<open>
  Claim C1: for every old and new, replaying the diff of old against new into a window
  that holds old leaves the window holding new. The code breaks this where diff names
  line 0: for old \<^verbatim>\<open>b\<close> and new \<^verbatim>\<open>a\<close>, \<^verbatim>\<open>b\<close> (a line put before the first) diff prints the
  hunk \<^verbatim>\<open>0a1\<close>, \<^verbatim>\<open>parseSpan\<close> gives the old start 0, and the test that is meant to drop
  unparsable spans drops the hunk. The run sets no address and writes no data, so the
  window still holds old, and \<^verbatim>\<open>reformat\<close> returns true.
\<close>

theorem top_insert_hunk_dropped:
  "reformat topInsert =
     (Return True, [EvDiff, EvWrite ''ctl'' ''mark'' True, EvWrite ''ctl'' ''nomark'' True])"
  by code_simp

subsection \<open>C2: the guard\<close>

text \<open>
  Claim C2: when the body of the window, read just before the replay, differs from the
  old content of the file, \<^verbatim>\<open>reformat\<close> returns false and issues no write of any kind and
  sets no address, whatever the diff holds.
\<close>

theorem guard_stops_all_writes:
  assumes "file_old e = Some old" "body e = Some latest" "latest \<noteq> old"
  shows "fst (reformat e) = Return False \<and> \<not> list_ex isWrite (snd (reformat e)) \<and>
         \<not> list_ex isAddr (snd (reformat e))"
  using assms by (auto simp: reformat_def split: option.splits)

text \<open>
  The guard at work on a window edited since the file was written.
\<close>

theorem guard_stops_all_writes_witness:
  "fst (reformat staleWindow) = Return False \<and> \<not> list_ex isWrite (snd (reformat staleWindow)) \<and>
   \<not> list_ex isAddr (snd (reformat staleWindow))"
  by (rule guard_stops_all_writes[of staleWindow "''a\<newline>''" "''a\<newline>x\<newline>''"]) code_simp+

subsection \<open>C3: a refused address\<close>

text \<open>
  Claim C3 says that a refused address ends the pass. It does not: the \<^verbatim>\<open>break\<close> after
  the log leaves the \<^verbatim>\<open>switch\<close>, not the loop. Here the window refuses \<^verbatim>\<open>3,3\<close>, and the
  hunk \<^verbatim>\<open>1c1\<close> before it is applied all the same.
\<close>

theorem refused_address_replay_goes_on:
  "reformat addrFails =
     (Return True,
      [EvDiff, EvWrite ''ctl'' ''mark'' True, EvWrite ''ctl'' ''nomark'' True,
       EvAddr ''3,3'' False, EvLog LogErr,
       EvAddr ''1,1'' True, EvWrite ''data'' ''x\<newline>'' True])"
  by code_simp

text \<open>
  Claim C3, amended: when the window refuses the address of a hunk (add, change or
  delete), the failure is logged and no data is written for that hunk; the replay then
  goes on with the lines before it, from the window as the log line left it.
\<close>

theorem addr_failure_skips_one_write:
  assumes "hunkAt line j"
    and "parseSpan (take j line) = ((oldStart, oldEnd), log1)"
    and "parseSpan (drop (j + 1) line) = ((newStart, newEnd), log2)"
    and "oldStart \<noteq> 0" "newStart \<noteq> 0"
    and "\<not> addr_ok e (events w @ log1 @ log2) (hunkAddr (line ! j) oldStart oldEnd)"
  shows "replayLines e new (line # earlier) w =
         replayLines e new earlier
           (w\<lparr>events := events w @ log1 @ log2 @
                [EvAddr (hunkAddr (line ! j) oldStart oldEnd) False, EvLog LogErr]\<rparr>)"
  using assms(4-6)
  by (simp add: doLine_hunk[OF assms(1-3)] addrWrite_def Window_Addr_def logw_def)

text \<open>
  The refused address \<^verbatim>\<open>3,3\<close>, followed by the hunk \<^verbatim>\<open>1c1\<close>.
\<close>

theorem addr_failure_skips_one_write_witness:
  "replayLines addrFails ''x\<newline>b\<newline>y\<newline>'' [''3c3'', ''---'', ''< a'', ''1c1''] w0 =
     (Next, \<lparr>events = [EvDiff, EvAddr ''3,3'' False, EvLog LogErr,
                       EvAddr ''1,1'' True, EvWrite ''data'' ''x\<newline>'' True],
            modified = True\<rparr>)"
proof -
  have "replayLines addrFails ''x\<newline>b\<newline>y\<newline>'' (''3c3'' # [''---'', ''< a'', ''1c1'']) w0 =
        replayLines addrFails ''x\<newline>b\<newline>y\<newline>'' [''---'', ''< a'', ''1c1'']
          (w0\<lparr>events := events w0 @ [] @ [] @ [EvAddr (hunkAddr (''3c3'' ! 1) 3 3) False, EvLog LogErr]\<rparr>)"
    by (rule addr_failure_skips_one_write[where j = 1 and newStart = 3 and newEnd = 3]) code_simp+
  also have "\<dots> = (Next, \<lparr>events = [EvDiff, EvAddr ''3,3'' False, EvLog LogErr,
                       EvAddr ''1,1'' True, EvWrite ''data'' ''x\<newline>'' True],
            modified = True\<rparr>)"
    by code_simp
  finally show ?thesis .
qed

subsection \<open>C4: a line with no operator letter\<close>

text \<open>
  Claim C4 says that a line with none of the letters \<^verbatim>\<open>a\<close>, \<^verbatim>\<open>c\<close>, \<^verbatim>\<open>d\<close> is skipped
  alone. It is not: the \<^verbatim>\<open>break\<close> after the log leaves the loop. Here the line \<^verbatim>\<open>3x3\<close>
  is the first one the loop meets, and the hunk \<^verbatim>\<open>1c1\<close> before it is never applied.
\<close>

theorem unparsable_line_ends_pass:
  "reformat badLine =
     (Return True,
      [EvDiff, EvWrite ''ctl'' ''mark'' True, EvWrite ''ctl'' ''nomark'' True,
       EvLog (CannotParseLine ''3x3'')])"
  by code_simp

text \<open>
  Claim C4, amended: when a line that is neither blank nor a content line has none of
  the letters \<^verbatim>\<open>a\<close>, \<^verbatim>\<open>c\<close>, \<^verbatim>\<open>d\<close>, the parse error is logged and the loop ends: what
  the later lines of the diff did to the window stays, and no line before this one is
  processed.
\<close>

theorem unparsable_line_stops_replay:
  assumes "line \<noteq> []" "hd line \<noteq> CHR ''<''" "hd line \<noteq> CHR ''-''" "hd line \<noteq> CHR ''>''"
    and "\<forall>c\<in>set line. \<not> isOp c"
    and "replayLines e new later w = (Next, w')"
  shows "replayLines e new (later @ line # earlier) w = (Break, logw (CannotParseLine line) w')"
  using assms(6) doLine_unparsable[OF assms(1-5), of e new w']
  by (simp add: replayLines_append)

text \<open>
  The line \<^verbatim>\<open>3x3\<close> after a blank piece and before a whole hunk.
\<close>

theorem unparsable_line_stops_replay_witness:
  "replayLines badLine ''x\<newline>'' ([[]] @ ''3x3'' # [''> x'', ''---'', ''< a'', ''1c1'']) w0 =
     (Break, logw (CannotParseLine ''3x3'') w0)"
  by (rule unparsable_line_stops_replay) (simp_all add: isOp_def doLine_def)

subsection \<open>C5: ranges and the zero sentinel\<close>



subsection \<open>C6: extracting lines\<close>



subsection \<open>C7: nothing to do\<close>

text \<open>
  Claim C7: when the formatter returns the content of the file, \<^verbatim>\<open>reformat\<close> returns
  false with no event at all past opening the window: diff is not run, and the window
  gets no write and no address.
\<close>

theorem unchanged_output_no_writes:
  assumes "file_old e = Some old" "fmt_new e = Some old"
  shows "fst (reformat e) = Return False \<and>
         snd (reformat e) = (if open_ok e then [] else [EvLog LogErr])"
  using assms by (simp add: reformat_def)

text \<open>
  A formatter that changes nothing.
\<close>

theorem unchanged_output_no_writes_witness:
  "fst (reformat unchangedFile) = Return False \<and>
   snd (reformat unchangedFile) = (if open_ok unchangedFile then [] else [EvLog LogErr])"
  by (rule unchanged_output_no_writes[of unchangedFile "''a\<newline>''"]) code_simp+

subsection \<open>C8: the returned flag\<close>

text \<open>
  Claim C8 says that \<^verbatim>\<open>reformat\<close> returns true exactly when a write to the window
  succeeded. \<^verbatim>\<open>Window.Write\<close> drops the error of the write and sets the flag in any
  case: here every write fails and the result is true.
\<close>

theorem failed_writes_still_true:
  "reformat writesFail = (Return True,
     [EvDiff, EvWrite ''ctl'' ''mark'' False, EvWrite ''ctl'' ''nomark'' False,
      EvAddr ''2,2'' True, EvWrite ''data'' ''CHANGED\<newline>'' False])"
  by code_simp

text \<open>
  Claim C8, amended: \<^verbatim>\<open>reformat\<close> returns true exactly when it issued a write to the
  window, whether or not the write succeeded; it never panics.
\<close>

theorem applied_iff_write_issued:
  "fst (reformat e) = Return (list_ex isWrite (snd (reformat e)))"
proof (cases "open_ok e \<and> (\<exists>old new. file_old e = Some old \<and> fmt_new e = Some new \<and> old \<noteq> new \<and> tmp_ok e \<and> tmp_write_ok e \<and> body e = Some old)")
  case True
  then obtain old new where h: "open_ok e" "file_old e = Some old" "fmt_new e = Some new" "old \<noteq> new"
     "tmp_ok e" "tmp_write_ok e" "body e = Some old" by blast
  define w2 where "w2 = Window_Write e ''ctl'' ''nomark'' (Window_Write e ''ctl'' ''mark'' \<lparr>events = [EvDiff], modified = False\<rparr>)"
  obtain c w3 where r: "replayLines e new (rev (Split (diff_out e))) w2 = (c, w3)"
    by (cases "replayLines e new (rev (Split (diff_out e))) w2")
  have m2: "modified w2" "list_ex isWrite (events w2)"
    by (simp_all add: w2_def Window_Write_def)
  from replayLines_ext[OF r] m2 obtain evs where
    x: "c \<noteq> Panic" "events w3 = events w2 @ evs" "modified w3" by auto
  from x(2) m2(2) have "list_ex isWrite (events w3)" by simp
  moreover from h r x(1) have "reformat e = (Return (modified w3), events w3)"
    by (cases c) (simp_all add: reformat_def Let_def w2_def)
  ultimately show ?thesis using x(3) by simp
next
  case False
  then show ?thesis
    by (auto simp: reformat_def split: option.splits)
qed

subsection \<open>C9: findLines stays in bounds\<close>

text \<open>
  Claim C9: for every buffer and every start and end, \<^verbatim>\<open>findLines\<close> does not panic
  and returns the slice from startByte to endByte with startByte at most endByte and
  endByte at most the length of the buffer; a start beyond the number of lines gives
  the empty slice.
\<close>

theorem findLines_total_in_bounds:
  "(\<exists>startByte endByte. startByte \<le> endByte \<and> endByte \<le> length t \<and>
      findLines t start end = Some (take (endByte - startByte) (drop startByte t))) \<and>
   (int (numLines t) < start \<longrightarrow> findLines t start end = Some [])"
  using findLines_slice[of t start "end"] findLines_start_beyond[of t start "end"] by blast

text \<open>
  Line 3 of a buffer of two lines.
\<close>

theorem findLines_total_in_bounds_witness:
  "int (numLines ''a\<newline>b'') < 3 \<and> findLines ''a\<newline>b'' 3 4 = Some []"
  using findLines_total_in_bounds[of "''a\<newline>b''" 3 4] by (simp add: numLines_def)

subsection \<open>C10: a negative range passes the sentinel\<close>

text \<open>
  Claim C10: on the header \<^verbatim>\<open>3c-4\<close>, \<^verbatim>\<open>parseSpan\<close> returns the negative start, the test
  for 0 lets the hunk through, the address \<^verbatim>\<open>3,3\<close> is set, and \<^verbatim>\<open>findLines\<close> on the
  negative range returns the empty slice, which is written.
\<close>

theorem negative_range_not_rejected:
  assumes "addr_ok e (events w) ''3,3''"
  shows "parseSpan ''-4'' = ((- 4, - 4), []) \<and>
         findLines new (- 4) (- 4) = Some [] \<and>
         doLine e new ''3c-4'' w =
           (Next, w\<lparr>events := events w @
                      [EvAddr ''3,3'' True,
                       EvWrite ''data'' [] (write_ok e (events w @ [EvAddr ''3,3'' True]) ''data'' [])],
                    modified := True\<rparr>)"
proof -
  have p: "parseSpan ''-4'' = ((- 4, - 4), [])" by code_simp
  have d: "dec (- 4) = - 5" by (simp add: dec_def minInt_def)
  have f: "findLines new (- 4) (- 4) = Some []"
    by (simp add: findLines_def d loop1_stop loop2_stop slice_def)
  have h: "hunkAt ''3c-4'' 1" by code_simp
  have p3: "parseSpan (take 1 ''3c-4'') = ((3, 3), [])" by code_simp
  have p4: "parseSpan (drop (1 + 1) ''3c-4'') = ((- 4, - 4), [])" by code_simp
  have a: "hunkAddr CHR ''c'' 3 3 = ''3,3''" by code_simp
  have "doLine e new ''3c-4'' w =
           (Next, w\<lparr>events := events w @
                      [EvAddr ''3,3'' True,
                       EvWrite ''data'' [] (write_ok e (events w @ [EvAddr ''3,3'' True]) ''data'' [])],
                    modified := True\<rparr>)"
    using assms
    by (simp add: doLine_hunk[OF h p3 p4] a f addrWrite_def Window_Addr_def Window_Write_def)
  with p f show ?thesis by simp
qed

text \<open>
  The header \<^verbatim>\<open>3c-4\<close> in a window that accepts every address.
\<close>

theorem negative_range_not_rejected_witness:
  "addr_ok negRange (events w0) ''3,3'' \<and>
   doLine negRange ''a\<newline>b\<newline>'' ''3c-4'' w0 =
     (Next, \<lparr>events = [EvDiff, EvAddr ''3,3'' True, EvWrite ''data'' [] True], modified = True\<rparr>)"
proof -
  have h: "addr_ok negRange (events w0) ''3,3''" by code_simp
  have w: "write_ok negRange (events w0 @ [EvAddr ''3,3'' True]) ''data'' []" by code_simp
  from negative_range_not_rejected[OF h, of "''a\<newline>b\<newline>''"] h w show ?thesis
    by (simp add: w0_def)
qed

end
